theory Spec2Isabelle
  imports Complex_Main "HOL-Library.Word" "HOL-Library.Sublist"
begin

section \<open>JavaScript strings\<close>

text \<open>
  A JavaScript string is a sequence of UTF-16 code units; \<open>===\<close> on strings is equality
  of these sequences and a string is falsy exactly when it is empty.  Literals of the
  source that are not ASCII are written as their code units.
\<close>

type_synonym jsstring = "16 word list"

definition ascii :: "string \<Rightarrow> jsstring" where
  "ascii s = map (\<lambda>c. of_nat (of_char c)) s"

text \<open>\<open>String.prototype.includes\<close>: the argument occurs at some position.\<close>

fun str_includes :: "jsstring \<Rightarrow> jsstring \<Rightarrow> bool" where
  "str_includes [] t = (t = [])"
| "str_includes (c # s) t = (prefix t (c # s) \<or> str_includes s t)"

text \<open>The literal free-of-charge marker of line 104.\<close>

definition free_marker :: jsstring where
  "free_marker = [0xBB34, 0xB8CC]"

section \<open>Data model\<close>

record GetTourList =
  category :: jsstring
  address :: jsstring
  event_name :: jsstring
  start_date :: jsstring
  end_date :: jsstring
  event_fee :: jsstring

text \<open>The optional field \<open>event_fee?\<close> is \<open>None\<close> when the property is absent.\<close>

record TourList =
  category :: jsstring
  gu :: jsstring
  event_name :: jsstring
  start_date :: jsstring
  end_date :: jsstring
  is_free :: bool
  event_fee :: "jsstring option"

datatype view_mode = Grid | Table

text \<open>
  The component state, one field for each \<open>useState\<close> (the working list \<open>list\<close> is the
  field \<open>tour_list\<close>).
\<close>

record state =
  tour_list :: "TourList list"
  loading :: bool
  error :: "jsstring option"
  filterCategory :: jsstring
  filterFeeType :: jsstring
  searchTerm :: jsstring
  selectedEvent :: "TourList option"
  isMobileView :: bool
  viewMode :: view_mode
  currentPage :: int
  itemsPerPage :: int

section \<open>fetchEvents\<close>

text \<open>The object built for one raw record by the \<open>map\<close> of lines 98 to 106.\<close>

definition normalize :: "GetTourList \<Rightarrow> TourList" where
  "normalize e =
     \<lparr> TourList.category = GetTourList.category e,
       gu = address e,
       TourList.event_name = GetTourList.event_name e,
       TourList.start_date = GetTourList.start_date e,
       TourList.end_date = GetTourList.end_date e,
       is_free = (GetTourList.event_fee e = [] \<or> GetTourList.event_fee e = free_marker),
       TourList.event_fee = Some (GetTourList.event_fee e) \<rparr>"

text \<open>
  What the awaited call \<open>getEventList()\<close> produced: a response, which at run time may be
  \<open>undefined\<close> (\<open>None\<close>), or a rejection that lands in the \<open>catch\<close> block.
\<close>

datatype fetch_outcome = Resolved "GetTourList list option" | Rejected

definition msg_empty :: jsstring where
  "msg_empty =
     [0xC774, 0xBCA4, 0xD2B8, 0x0020, 0xB370, 0xC774, 0xD130, 0xAC00, 0x0020, 0xBE44,
      0xC5B4, 0xC788, 0xAC70, 0xB098, 0x0020, 0xC815, 0xC758, 0xB418, 0xC9C0, 0x0020,
      0xC54A, 0xC558, 0xC2B5, 0xB2C8, 0xB2E4, 0x002E]"

definition msg_failed :: jsstring where
  "msg_failed =
     [0xBB38, 0xD654, 0x0020, 0xD589, 0xC0AC, 0x0020, 0xB370, 0xC774, 0xD130, 0xB97C,
      0x0020, 0xBD88, 0xB7EC, 0xC624, 0xB294, 0xB370, 0x0020, 0xC2E4, 0xD328, 0xD588,
      0xC2B5, 0xB2C8, 0xB2E4, 0x002E]"

text \<open>
  The state after \<open>fetchEvents\<close> has run to its end on the given outcome of the call:
  the setters of lines 91 and 92, then the branch taken, then the \<open>finally\<close> block.
\<close>

definition fetchEvents :: "fetch_outcome \<Rightarrow> state \<Rightarrow> state" where
  "fetchEvents outcome st =
     (let st1 = st\<lparr>loading := True, error := None\<rparr>;
          st2 = (case outcome of
                   Resolved response \<Rightarrow>
                     (case response of
                        Some rs \<Rightarrow>
                          if length rs > 0 then st1\<lparr>tour_list := map normalize rs\<rparr>
                          else st1\<lparr>error := Some msg_empty\<rparr>
                      | None \<Rightarrow> st1\<lparr>error := Some msg_empty\<rparr>)
                 | Rejected \<Rightarrow> st1\<lparr>error := Some msg_failed, tour_list := []\<rparr>)
      in st2\<lparr>loading := False\<rparr>)"

section \<open>Effects on view mode and filters\<close>

text \<open>The body of the effect with dependency \<open>[viewMode]\<close>, lines 126 to 133.\<close>

definition viewModeEffect :: "state \<Rightarrow> state" where
  "viewModeEffect st =
     (let st1 = (if viewMode st = Grid then st\<lparr>itemsPerPage := 9\<rparr>
                 else st\<lparr>itemsPerPage := 10\<rparr>)
      in st1\<lparr>currentPage := 1\<rparr>)"

text \<open>
  The body of the effect with dependencies \<open>[filterCategory, filterFeeType, searchTerm]\<close>,
  lines 135 to 137.
\<close>

definition filterEffect :: "state \<Rightarrow> state" where
  "filterEffect st = st\<lparr>currentPage := 1\<rparr>"

text \<open>
  After a render that takes the state from \<open>prev\<close> to \<open>st\<close>, React runs, in the order of
  their declaration, the effects one of whose dependencies differs from its value at the
  previous render.
\<close>

definition runEffects :: "state \<Rightarrow> state \<Rightarrow> state" where
  "runEffects prev st =
     (let st1 = (if viewMode st \<noteq> viewMode prev then viewModeEffect st else st);
          st2 = (if filterCategory st \<noteq> filterCategory prev
                    \<or> filterFeeType st \<noteq> filterFeeType prev
                    \<or> searchTerm st \<noteq> searchTerm prev
                 then filterEffect st1 else st1)
      in st2)"

section \<open>Filtering\<close>

text \<open>
  The callback of \<open>list.filter\<close>, lines 140 to 154.  \<open>String.prototype.toLowerCase\<close> is
  the platform's Unicode lower-casing and is taken as the parameter \<open>lc\<close>.
\<close>

definition matches ::
  "(jsstring \<Rightarrow> jsstring) \<Rightarrow> jsstring \<Rightarrow> jsstring \<Rightarrow> jsstring \<Rightarrow> TourList \<Rightarrow> bool" where
  "matches lc fCategory fFeeType sTerm item =
     (let matchesCategory =
            (if fCategory \<noteq> [] then TourList.category item = fCategory else True);
          matchesFeeType =
            (if fFeeType \<noteq> []
             then (if fFeeType = ascii ''free'' then is_free item else \<not> is_free item)
             else True);
          matchesSearch =
            (if sTerm \<noteq> []
             then str_includes (lc (TourList.event_name item)) (lc sTerm)
             else True)
      in matchesCategory \<and> matchesFeeType \<and> matchesSearch)"

definition filteredList ::
  "(jsstring \<Rightarrow> jsstring) \<Rightarrow> TourList list \<Rightarrow> jsstring \<Rightarrow> jsstring \<Rightarrow> jsstring
     \<Rightarrow> TourList list" where
  "filteredList lc l fCategory fFeeType sTerm = filter (matches lc fCategory fFeeType sTerm) l"

section \<open>Pagination\<close>

text \<open>
  \<open>Math.ceil(filteredList.length / itemsPerPage)\<close>.  Lengths and page sizes are integers
  far below \<open>2 ^ 53\<close>, where the quotient is the exact one.  Division by a page size of
  zero gives \<open>Infinity\<close> or \<open>NaN\<close>, which is no page count: \<open>None\<close>.
\<close>

definition totalPages :: "'a list \<Rightarrow> int \<Rightarrow> int option" where
  "totalPages fl ipp =
     (if ipp = 0 then None else Some \<lceil>real (length fl) / real_of_int ipp\<rceil>)"

definition startIndex :: "int \<Rightarrow> int \<Rightarrow> int" where
  "startIndex cp ipp = (cp - 1) * ipp"

text \<open>
  \<open>Array.prototype.slice\<close> on integer arguments: a negative index counts from the end,
  and both bounds are clamped to the array.
\<close>

definition slice :: "'a list \<Rightarrow> int \<Rightarrow> int \<Rightarrow> 'a list" where
  "slice xs start fin =
     (let len = int (length xs);
          k = (if start < 0 then max (len + start) 0 else min start len);
          final = (if fin < 0 then max (len + fin) 0 else min fin len);
          count = max (final - k) 0
      in take (nat count) (drop (nat k) xs))"

definition paginatedList :: "'a list \<Rightarrow> int \<Rightarrow> int \<Rightarrow> 'a list" where
  "paginatedList fl cp ipp = slice fl (startIndex cp ipp) (startIndex cp ipp + ipp)"

text \<open>The entries of \<open>rangeWithDots\<close>: a page number or the string \<open>"..."\<close>.\<close>

datatype page_item = PageNum int | Dots

text \<open>The \<open>for\<close> loop of lines 447 to 453, pushing \<open>i\<close> onto \<open>range\<close> (here \<open>rng\<close>).\<close>

function range_loop :: "int \<Rightarrow> int \<Rightarrow> int list \<Rightarrow> int list" where
  "range_loop i hi rng = (if i \<le> hi then range_loop (i + 1) hi (rng @ [i]) else rng)"
  by pat_completeness auto
termination
  by (relation "measure (\<lambda>(i, hi, rng). nat (hi + 1 - i))") auto

declare range_loop.simps [simp del]

definition getVisiblePages :: "bool \<Rightarrow> int \<Rightarrow> int \<Rightarrow> page_item list" where
  "getVisiblePages mobile cp tp =
     (let delta = (if mobile then 1 else 2);
          rng = range_loop (max 2 (cp - delta)) (min (tp - 1) (cp + delta)) [];
          rangeWithDots = (if cp - delta > 2 then [PageNum 1, Dots] else [PageNum 1]);
          rangeWithDots = rangeWithDots @ map PageNum rng;
          rangeWithDots = (if cp + delta < tp - 1
                           then rangeWithDots @ [Dots, PageNum tp]
                           else rangeWithDots @ [PageNum tp])
      in rangeWithDots)"

text \<open>
  The page-number entries rendered by \<open>Pagination\<close>; \<open>None\<close> when the component returns
  \<open>null\<close>.
\<close>

definition Pagination :: "bool \<Rightarrow> int \<Rightarrow> int \<Rightarrow> page_item list option" where
  "Pagination mobile cp tp = (if tp \<le> 1 then None else Some (getVisiblePages mobile cp tp))"

section \<open>Detail modal\<close>

definition msg_free_event :: jsstring where
  "msg_free_event = [0xBB34, 0xB8CC, 0x0020, 0xD589, 0xC0AC, 0xC785, 0xB2C8, 0xB2E4]"

definition msg_no_fee_info :: jsstring where
  "msg_no_fee_info =
     [0xC0C1, 0xC138, 0xD55C, 0x0020, 0xC694, 0xAE08, 0x0020, 0xC815, 0xBCF4, 0xAC00,
      0x0020, 0xC81C, 0xACF5, 0xB418, 0xC9C0, 0x0020, 0xC54A, 0xC558, 0xC2B5, 0xB2C8,
      0xB2E4, 0x002E]"

text \<open>
  The text of the fee paragraph, lines 1086 to 1090; \<open>a || b\<close> takes \<open>b\<close> when \<open>a\<close> is
  \<open>undefined\<close> or the empty string.
\<close>

definition modalFeeDescription :: "TourList \<Rightarrow> jsstring" where
  "modalFeeDescription ev =
     (if is_free ev then msg_free_event
      else (case TourList.event_fee ev of
              Some fee \<Rightarrow> if fee \<noteq> [] then fee else msg_no_fee_info
            | None \<Rightarrow> msg_no_fee_info))"

section \<open>Category options and colours\<close>

text \<open>
  \<open>Array.from(new Set(xs))\<close>: a Set keeps its members in insertion order and adding a
  member it already has changes nothing.
\<close>

definition set_add :: "'a list \<Rightarrow> 'a \<Rightarrow> 'a list" where
  "set_add s x = (if x \<in> set s then s else s @ [x])"

definition new_Set :: "'a list \<Rightarrow> 'a list" where
  "new_Set xs = foldl set_add [] xs"

definition categories :: "TourList list \<Rightarrow> jsstring list" where
  "categories l = new_Set (map TourList.category l)"

text \<open>The position of the first occurrence of \<open>x\<close> in \<open>xs\<close>.\<close>

definition first_index :: "'a list \<Rightarrow> 'a \<Rightarrow> nat" where
  "first_index xs x = length (takeWhile (\<lambda>y. y \<noteq> x) xs)"

text \<open>
  A value read from the object \<open>colors\<close>: one of its strings, or a built-in function or
  object inherited from \<open>Object.prototype\<close>, named by its property key.
\<close>

datatype jsvalue = JSString jsstring | JSBuiltin jsstring

definition key_other :: jsstring where
  "key_other = [0xAE30, 0xD0C0]"

text \<open>The own properties of the object literal of lines 222 to 229.\<close>

definition colors :: "(jsstring \<times> jsstring) list" where
  "colors =
     [([0xC74C, 0xC545], ascii ''bg-purple-100 text-purple-800 border-purple-300''),
      ([0xACF5, 0xC5F0], ascii ''bg-pink-100 text-pink-800 border-pink-300''),
      ([0xC804, 0xC2DC], ascii ''bg-indigo-100 text-indigo-800 border-indigo-300''),
      ([0xCD95, 0xC81C], ascii ''bg-orange-100 text-orange-800 border-orange-300''),
      ([0xCCB4, 0xD5D8], ascii ''bg-green-100 text-green-800 border-green-300''),
      (key_other, ascii ''bg-gray-100 text-gray-800 border-gray-300'')]"

text \<open>
  An object literal has the prototype \<open>Object.prototype\<close>, whose properties are these
  (ECMAScript, with the legacy accessors of Annex B).
\<close>

definition object_prototype :: "jsstring list" where
  "object_prototype =
     map ascii
       [''constructor'', ''hasOwnProperty'', ''isPrototypeOf'', ''propertyIsEnumerable'',
        ''toLocaleString'', ''toString'', ''valueOf'', ''__proto__'',
        ''__defineGetter__'', ''__defineSetter__'', ''__lookupGetter__'',
        ''__lookupSetter__'']"

text \<open>
  \<open>colors[key]\<close>: the own property if there is one, else the property inherited along
  the prototype chain, else \<open>undefined\<close> (\<open>None\<close>).
\<close>

definition colors_get :: "jsstring \<Rightarrow> jsvalue option" where
  "colors_get key =
     (case map_of colors key of
        Some v \<Rightarrow> Some (JSString v)
      | None \<Rightarrow> if key \<in> set object_prototype then Some (JSBuiltin key) else None)"

fun truthy :: "jsvalue option \<Rightarrow> bool" where
  "truthy None = False"
| "truthy (Some (JSString s)) = (s \<noteq> [])"
| "truthy (Some (JSBuiltin k)) = True"

definition getCategoryColor :: "jsstring \<Rightarrow> jsvalue option" where
  "getCategoryColor cat =
     (if truthy (colors_get cat) then colors_get cat else colors_get key_other)"

section \<open>Initial state and sample data\<close>

text \<open>The initial values given to \<open>useState\<close>, lines 61 to 72.\<close>

definition initialState :: state where
  "initialState =
     \<lparr> tour_list = [], loading = True, error = None, filterCategory = [],
       filterFeeType = [], searchTerm = [], selectedEvent = None, isMobileView = False,
       viewMode = Grid, currentPage = 1, itemsPerPage = 10 \<rparr>"

text \<open>
  Lower-casing of the letters A to Z, which is what \<open>toLowerCase\<close> does on strings of
  ASCII characters; it instantiates \<open>lc\<close> on the sample data below.
\<close>

definition ascii_lower :: "jsstring \<Rightarrow> jsstring" where
  "ascii_lower s = map (\<lambda>c. if 0x41 \<le> c \<and> c \<le> 0x5A then c + 0x20 else c) s"

definition sample_raw :: GetTourList where
  "sample_raw =
     \<lparr> GetTourList.category = [0xC804, 0xC2DC], address = ascii ''Jongno-gu'',
       GetTourList.event_name = ascii ''Seoul Jazz Night'',
       GetTourList.start_date = ascii ''2025-05-01'',
       GetTourList.end_date = ascii ''2025-05-31'',
       GetTourList.event_fee = [] \<rparr>"

definition sample_event :: "jsstring \<Rightarrow> jsstring \<Rightarrow> bool \<Rightarrow> jsstring option \<Rightarrow> TourList" where
  "sample_event cat name free fee =
     \<lparr> TourList.category = cat, gu = ascii ''Jongno-gu'', TourList.event_name = name,
       TourList.start_date = ascii ''2025-05-01'', TourList.end_date = ascii ''2025-05-31'',
       is_free = free, TourList.event_fee = fee \<rparr>"

definition sample_list :: "TourList list" where
  "sample_list =
     [sample_event [0xC804, 0xC2DC] (ascii ''Seoul Jazz Night'') True (Some []),
      sample_event [0xC74C, 0xC545] (ascii ''JAZZ Picnic'') False
        (Some [0x31, 0x30, 0x30, 0x30, 0xC6D0]),
      sample_event [0xC804, 0xC2DC] (ascii ''Han River Fair'') True (Some free_marker)]"

section \<open>Normalisation of the fee\<close>

text \<open>
  Claim C3.  For every raw record the normalised record has \<open>is_free\<close> true exactly when
  the raw \<open>event_fee\<close> is the empty string or the free-of-charge marker (the two code
  units U+BB34 U+B8CC); so the raw fee \<open>""\<close> gives true, and the raw fee made of
  \<open>1000\<close> followed by U+C6D0 gives false.
\<close>

theorem normalize_is_free:
  "is_free (normalize e)
     = (GetTourList.event_fee e = [] \<or> GetTourList.event_fee e = [0xBB34, 0xB8CC])
   \<and> is_free (normalize (e\<lparr>GetTourList.event_fee := []\<rparr>))
   \<and> \<not> is_free (normalize (e\<lparr>GetTourList.event_fee := [0x31, 0x30, 0x30, 0x30, 0xC6D0]\<rparr>))"
  by (simp add: normalize_def free_marker_def)

section \<open>Fee description of the modal\<close>

text \<open>
  Claim C8.  The fee description of the selected record is the free-of-charge message
  when \<open>is_free\<close> holds; otherwise it is the record's \<open>event_fee\<close> when that string is
  present and not empty, and the placeholder message when it is empty or absent.
\<close>

theorem modalFeeDescription_cases:
  "(is_free ev \<longrightarrow> modalFeeDescription ev = [0xBB34, 0xB8CC, 0x0020, 0xD589, 0xC0AC, 0xC785, 0xB2C8, 0xB2E4])
   \<and> (\<not> is_free ev \<longrightarrow>
        (\<forall>fee. TourList.event_fee ev = Some fee \<and> fee \<noteq> [] \<longrightarrow> modalFeeDescription ev = fee)
        \<and> (TourList.event_fee ev = Some [] \<or> TourList.event_fee ev = None
             \<longrightarrow> modalFeeDescription ev = msg_no_fee_info))"
  by (auto simp add: modalFeeDescription_def msg_free_event_def)

theorem modalFeeDescription_cases_witness:
  "modalFeeDescription (sample_event [] [] True (Some []))
     = [0xBB34, 0xB8CC, 0x0020, 0xD589, 0xC0AC, 0xC785, 0xB2C8, 0xB2E4]
   \<and> modalFeeDescription (sample_event [] [] False (Some [0x31, 0x30, 0x30, 0x30, 0xC6D0]))
       = [0x31, 0x30, 0x30, 0x30, 0xC6D0]
   \<and> modalFeeDescription (sample_event [] [] False (Some [])) = msg_no_fee_info
   \<and> modalFeeDescription (sample_event [] [] False None) = msg_no_fee_info"
  using modalFeeDescription_cases [of "sample_event [] [] True (Some [])"]
    modalFeeDescription_cases
      [of "sample_event [] [] False (Some [0x31, 0x30, 0x30, 0x30, 0xC6D0])"]
    modalFeeDescription_cases [of "sample_event [] [] False (Some [])"]
    modalFeeDescription_cases [of "sample_event [] [] False None"]
  by (simp add: sample_event_def)

section \<open>Page reset on filter and view-mode changes\<close>

text \<open>
  Claim C5.  Whenever a render changes at least one of the selected category, the fee
  type and the search term, the current page is 1 once the effects have run.
\<close>

theorem filter_change_resets_page:
  assumes "filterCategory st' \<noteq> filterCategory st \<or> filterFeeType st' \<noteq> filterFeeType st
           \<or> searchTerm st' \<noteq> searchTerm st"
  shows "currentPage (runEffects st st') = 1"
  using assms by (auto simp add: runEffects_def filterEffect_def Let_def)

theorem filter_change_resets_page_witness:
  "currentPage (runEffects (initialState\<lparr>currentPage := 3\<rparr>)
                  (initialState\<lparr>currentPage := 3, searchTerm := ascii ''jazz''\<rparr>)) = 1
   \<and> currentPage (runEffects (initialState\<lparr>currentPage := 2, filterFeeType := ascii ''paid''\<rparr>)
                  (initialState\<lparr>currentPage := 2, filterFeeType := []\<rparr>)) = 1"
proof -
  have h1: "filterCategory (initialState\<lparr>currentPage := 3, searchTerm := ascii ''jazz''\<rparr>)
              \<noteq> filterCategory (initialState\<lparr>currentPage := 3\<rparr>)
            \<or> filterFeeType (initialState\<lparr>currentPage := 3, searchTerm := ascii ''jazz''\<rparr>)
              \<noteq> filterFeeType (initialState\<lparr>currentPage := 3\<rparr>)
            \<or> searchTerm (initialState\<lparr>currentPage := 3, searchTerm := ascii ''jazz''\<rparr>)
              \<noteq> searchTerm (initialState\<lparr>currentPage := 3\<rparr>)"
    by (simp add: initialState_def ascii_def)
  have h2: "filterCategory (initialState\<lparr>currentPage := 2, filterFeeType := []\<rparr>)
              \<noteq> filterCategory (initialState\<lparr>currentPage := 2, filterFeeType := ascii ''paid''\<rparr>)
            \<or> filterFeeType (initialState\<lparr>currentPage := 2, filterFeeType := []\<rparr>)
              \<noteq> filterFeeType (initialState\<lparr>currentPage := 2, filterFeeType := ascii ''paid''\<rparr>)
            \<or> searchTerm (initialState\<lparr>currentPage := 2, filterFeeType := []\<rparr>)
              \<noteq> searchTerm (initialState\<lparr>currentPage := 2, filterFeeType := ascii ''paid''\<rparr>)"
    by (simp add: initialState_def ascii_def)
  show ?thesis
    using filter_change_resets_page [OF h1] filter_change_resets_page [OF h2] by (rule conjI)
qed

text \<open>
  Claim C6.  Whenever a render changes the view mode, the effects leave the page size
  at 9 if the new mode is the grid and at 10 if it is the table, and the current page
  at 1.
\<close>

theorem view_mode_switch:
  assumes "viewMode st' \<noteq> viewMode st"
  shows "itemsPerPage (runEffects st st') = (case viewMode st' of Grid \<Rightarrow> 9 | Table \<Rightarrow> 10)
         \<and> currentPage (runEffects st st') = 1
         \<and> viewMode (runEffects st st') = viewMode st'"
  using assms
  by (cases "viewMode st'") (auto simp add: runEffects_def filterEffect_def viewModeEffect_def Let_def)

theorem view_mode_switch_witness:
  "itemsPerPage (runEffects (initialState\<lparr>currentPage := 3\<rparr>)
                   (initialState\<lparr>currentPage := 3, viewMode := Table\<rparr>)) = 10
   \<and> currentPage (runEffects (initialState\<lparr>currentPage := 3\<rparr>)
                   (initialState\<lparr>currentPage := 3, viewMode := Table\<rparr>)) = 1
   \<and> itemsPerPage (runEffects (initialState\<lparr>currentPage := 2, viewMode := Table\<rparr>)
                   (initialState\<lparr>currentPage := 2, viewMode := Grid\<rparr>)) = 9
   \<and> currentPage (runEffects (initialState\<lparr>currentPage := 2, viewMode := Table\<rparr>)
                   (initialState\<lparr>currentPage := 2, viewMode := Grid\<rparr>)) = 1"
proof -
  have h1: "viewMode (initialState\<lparr>currentPage := 3, viewMode := Table\<rparr>)
              \<noteq> viewMode (initialState\<lparr>currentPage := 3\<rparr>)"
    by (simp add: initialState_def)
  have h2: "viewMode (initialState\<lparr>currentPage := 2, viewMode := Grid\<rparr>)
              \<noteq> viewMode (initialState\<lparr>currentPage := 2, viewMode := Table\<rparr>)"
    by simp
  show ?thesis
    using view_mode_switch [OF h1] view_mode_switch [OF h2] by simp
qed

section \<open>Outcome of a fetch\<close>

lemma fetchEvents_rejected:
  "tour_list (fetchEvents Rejected st) = [] \<and> error (fetchEvents Rejected st) = Some msg_failed
   \<and> \<not> loading (fetchEvents Rejected st)"
  by (simp add: fetchEvents_def)

lemma fetchEvents_empty:
  assumes "response = None \<or> response = Some []"
  shows "tour_list (fetchEvents (Resolved response) st) = tour_list st
         \<and> error (fetchEvents (Resolved response) st) = Some msg_empty
         \<and> \<not> loading (fetchEvents (Resolved response) st)"
  using assms by (auto simp add: fetchEvents_def)

text \<open>
  Claim C4.  The claim asks that after an empty or undefined response the working list
  has length 0 whatever it held before.  Here a first fetch returns one record and a
  second fetch returns the empty array: the error message is set, and the working list
  still holds the record of the first fetch.
\<close>

theorem fetchEvents_empty_response_keeps_list:
  "length (tour_list (fetchEvents (Resolved (Some []))
                        (fetchEvents (Resolved (Some [sample_raw])) initialState))) = 1
   \<and> error (fetchEvents (Resolved (Some []))
               (fetchEvents (Resolved (Some [sample_raw])) initialState)) = Some msg_empty"
  by (simp add: fetchEvents_def)

section \<open>Colour of a category\<close>

lemma getCategoryColor_total:
  assumes "cat \<notin> set object_prototype"
  shows "\<exists>s. getCategoryColor cat = Some (JSString s) \<and> s \<noteq> []
            \<and> (cat \<notin> fst ` set colors \<longrightarrow> s = ascii ''bg-gray-100 text-gray-800 border-gray-300'')"
  using assms
  by (auto simp add: getCategoryColor_def colors_get_def colors_def ascii_def key_other_def)

text \<open>
  Claim C9.  The claim asks that every category outside the six keys of \<open>colors\<close> gets
  the colour string of the fallback key.  For the category \<open>constructor\<close> the lookup
  \<open>colors[category]\<close> finds the property inherited from \<open>Object.prototype\<close>, a function
  and so truthy, and \<open>getCategoryColor\<close> returns it instead of the fallback string.
\<close>

theorem getCategoryColor_constructor:
  "getCategoryColor (ascii ''constructor'') = Some (JSBuiltin (ascii ''constructor''))
   \<and> getCategoryColor (ascii ''constructor'')
       \<noteq> Some (JSString (ascii ''bg-gray-100 text-gray-800 border-gray-300''))"
  by (simp add: getCategoryColor_def colors_get_def colors_def object_prototype_def ascii_def key_other_def)

section \<open>The filtered list\<close>

lemma str_includes_sublist: "str_includes s t = sublist t s"
  by (induction s) (auto simp add: sublist_Cons_right)

text \<open>
  Claim C1.  For every working list and all three filter values, the filtered list is a
  subsequence of the working list; every event in it has the selected category when one
  is selected, is free when the fee type is \<open>free\<close>, is not free when the fee type is
  \<open>paid\<close>, and, when the search term is not empty, has the lower-cased term as a
  substring of its lower-cased name; and every event of the working list that meets the
  criteria, an empty filter value standing for no criterion, is in the filtered list.
\<close>

theorem filteredList_sound_complete:
  "subseq (filteredList lc l fc ft s) l
   \<and> (\<forall>e \<in> set (filteredList lc l fc ft s).
         (fc \<noteq> [] \<longrightarrow> TourList.category e = fc)
         \<and> (ft = ascii ''free'' \<longrightarrow> is_free e)
         \<and> (ft = ascii ''paid'' \<longrightarrow> \<not> is_free e)
         \<and> (s \<noteq> [] \<longrightarrow> sublist (lc s) (lc (TourList.event_name e))))
   \<and> (\<forall>e \<in> set l.
         (fc = [] \<or> TourList.category e = fc)
         \<and> (ft = [] \<or> ft = ascii ''free'' \<and> is_free e \<or> ft = ascii ''paid'' \<and> \<not> is_free e)
         \<and> (s = [] \<or> sublist (lc s) (lc (TourList.event_name e)))
         \<longrightarrow> e \<in> set (filteredList lc l fc ft s))"
proof -
  have free_paid: "ascii ''paid'' \<noteq> ascii ''free''" "ascii ''paid'' \<noteq> []" "ascii ''free'' \<noteq> []"
    by (simp_all add: ascii_def)
  have "subseq (filteredList lc l fc ft s) l"
    by (simp add: filteredList_def)
  moreover have "\<forall>e \<in> set (filteredList lc l fc ft s).
         (fc \<noteq> [] \<longrightarrow> TourList.category e = fc)
         \<and> (ft = ascii ''free'' \<longrightarrow> is_free e)
         \<and> (ft = ascii ''paid'' \<longrightarrow> \<not> is_free e)
         \<and> (s \<noteq> [] \<longrightarrow> sublist (lc s) (lc (TourList.event_name e)))"
    using free_paid by (auto simp add: filteredList_def matches_def str_includes_sublist)
  moreover have "\<forall>e \<in> set l.
         (fc = [] \<or> TourList.category e = fc)
         \<and> (ft = [] \<or> ft = ascii ''free'' \<and> is_free e \<or> ft = ascii ''paid'' \<and> \<not> is_free e)
         \<and> (s = [] \<or> sublist (lc s) (lc (TourList.event_name e)))
         \<longrightarrow> e \<in> set (filteredList lc l fc ft s)"
    using free_paid by (auto simp add: filteredList_def matches_def str_includes_sublist)
  ultimately show ?thesis by blast
qed

theorem filteredList_sound_complete_witness:
  "sample_list ! 0
     \<in> set (filteredList ascii_lower sample_list [0xC804, 0xC2DC] (ascii ''free'') (ascii ''jazz''))
   \<and> TourList.category (sample_list ! 0) = [0xC804, 0xC2DC]
   \<and> is_free (sample_list ! 0)
   \<and> sublist (ascii_lower (ascii ''jazz''))
        (ascii_lower (TourList.event_name (sample_list ! 0)))
   \<and> sample_list ! 1 \<in> set (filteredList ascii_lower sample_list [] (ascii ''paid'') [])
   \<and> subseq (filteredList ascii_lower sample_list [0xC804, 0xC2DC] (ascii ''free'') (ascii ''jazz''))
        sample_list"
proof -
  let ?c = "[0xC804, 0xC2DC] :: jsstring"
  let ?fl = "filteredList ascii_lower sample_list ?c (ascii ''free'') (ascii ''jazz'')"
  note A = filteredList_sound_complete
             [of ascii_lower sample_list ?c "ascii ''free''" "ascii ''jazz''"]
  note B = filteredList_sound_complete [of ascii_lower sample_list "[]" "ascii ''paid''" "[]"]
  have ne: "?c \<noteq> []" "ascii ''jazz'' \<noteq> []" by (simp_all add: ascii_def)
  have sub: "sublist (ascii_lower (ascii ''jazz''))
               (ascii_lower (TourList.event_name (sample_list ! 0)))"
  proof -
    have "ascii_lower (TourList.event_name (sample_list ! 0))
            = ascii ''seoul '' @ ascii_lower (ascii ''jazz'') @ ascii '' night''"
      by (simp add: sample_list_def sample_event_def ascii_lower_def ascii_def)
    then show ?thesis by (simp only: sublist_appendI)
  qed
  have m0: "sample_list ! 0 \<in> set sample_list" and m1: "sample_list ! 1 \<in> set sample_list"
    by (simp_all add: sample_list_def)
  have p0: "TourList.category (sample_list ! 0) = ?c" "is_free (sample_list ! 0)"
    and p1: "\<not> is_free (sample_list ! 1)"
    by (simp_all add: sample_list_def sample_event_def)
  have in0: "sample_list ! 0 \<in> set ?fl"
    using A m0 p0 sub by blast
  have in1: "sample_list ! 1 \<in> set (filteredList ascii_lower sample_list [] (ascii ''paid'') [])"
    using B m1 p1 by blast
  have out: "TourList.category (sample_list ! 0) = ?c \<and> is_free (sample_list ! 0)
             \<and> sublist (ascii_lower (ascii ''jazz''))
                  (ascii_lower (TourList.event_name (sample_list ! 0)))"
    using A in0 ne by blast
  have ss: "subseq ?fl sample_list" using A by (rule conjunct1)
  show ?thesis using in0 in1 out ss by blast
qed

section \<open>Pages\<close>

lemma slice_page:
  assumes "0 < ipp" and "1 \<le> p"
  shows "paginatedList fl p ipp = take (nat ipp) (drop (nat ((p - 1) * ipp)) fl)"
proof -
  define s where "s = (p - 1) * ipp"
  define len where "len = int (length fl)"
  have s0: "0 \<le> s" using assms by (simp add: s_def)
  then have n1: "\<not> s < 0" and n2: "\<not> s + ipp < 0" using assms by simp_all
  have sl: "paginatedList fl p ipp
              = take (nat (max (min (s + ipp) len - min s len) 0)) (drop (nat (min s len)) fl)"
    unfolding paginatedList_def slice_def startIndex_def Let_def s_def [symmetric]
      len_def [symmetric]
    using n1 n2 by simp
  show ?thesis
  proof (cases "s < len")
    case True
    then have k: "min s len = s" by simp
    have ld: "int (length (drop (nat s) fl)) = len - s"
      using True s0 by (simp add: len_def)
    show ?thesis
    proof (cases "s + ipp \<le> len")
      case True
      then show ?thesis using sl k assms by (simp add: s_def)
    next
      case False
      then have "nat (max (min (s + ipp) len - min s len) 0) = length (drop (nat s) fl)"
        using ld k True by simp
      moreover have "length (drop (nat s) fl) \<le> nat ipp"
        using ld False by linarith
      ultimately show ?thesis using sl k by (simp add: s_def)
    qed
  next
    case False
    then have "length fl \<le> nat s" using s0 by (simp add: len_def)
    then have d: "drop (nat s) fl = []" by simp
    have "min s len = len" using False by simp
    then have "paginatedList fl p ipp = []" using sl by (simp add: len_def)
    then show ?thesis using d by (simp add: s_def)
  qed
qed

lemma concat_pages_take:
  "concat (map (\<lambda>p. take s (drop (nat ((p - 1) * int s)) fl)) [1..int k]) = take (k * s) fl"
proof (induction k)
  case 0
  then show ?case by simp
next
  case (Suc k)
  have up: "[1..int (Suc k)] = [1..int k] @ [int k + 1]"
    by (simp add: upto_rec2 add.commute)
  have nm: "nat (int k * int s) = k * s"
    by (simp add: nat_mult_distrib)
  have "concat (map (\<lambda>p. take s (drop (nat ((p - 1) * int s)) fl)) [1..int (Suc k)])
          = take (k * s) fl @ take s (drop (k * s) fl)"
    unfolding up using Suc nm by simp
  also have "\<dots> = take (k * s + s) fl" by (rule take_add [symmetric])
  also have "k * s + s = Suc k * s" by simp
  finally show ?case .
qed

lemma ceiling_bounds:
  assumes "0 < ipp"
  shows "(\<lceil>real n / real_of_int ipp\<rceil> - 1) * ipp < int n"
    and "int n \<le> \<lceil>real n / real_of_int ipp\<rceil> * ipp"
    and "0 \<le> \<lceil>real n / real_of_int ipp\<rceil>"
proof -
  define q where "q = real n / real_of_int ipp"
  have pos: "0 < real_of_int ipp" using assms by simp
  have qn: "q * real_of_int ipp = real n" using pos by (simp add: q_def)
  have "real_of_int \<lceil>q\<rceil> - 1 < q" by linarith
  then have "(real_of_int \<lceil>q\<rceil> - 1) * real_of_int ipp < q * real_of_int ipp"
    using pos by (rule mult_strict_right_mono)
  then have "real_of_int ((\<lceil>q\<rceil> - 1) * ipp) < real_of_int (int n)" using qn by simp
  then show "(\<lceil>real n / real_of_int ipp\<rceil> - 1) * ipp < int n"
    unfolding q_def by (simp only: of_int_less_iff)
  have "q \<le> real_of_int \<lceil>q\<rceil>" by linarith
  then have "q * real_of_int ipp \<le> real_of_int \<lceil>q\<rceil> * real_of_int ipp"
    using pos by (intro mult_right_mono) simp_all
  then have "real_of_int (int n) \<le> real_of_int (\<lceil>q\<rceil> * ipp)" using qn by simp
  then show "int n \<le> \<lceil>real n / real_of_int ipp\<rceil> * ipp"
    unfolding q_def by (simp only: of_int_le_iff)
  have "0 \<le> q" using pos by (simp add: q_def)
  then show "0 \<le> \<lceil>real n / real_of_int ipp\<rceil>" unfolding q_def by linarith
qed

text \<open>
  Claim C2.  For every filtered list and every positive page size, the page count is the
  ceiling of length over page size, that is the integer \<open>tp\<close> with
  \<open>(tp - 1) * size < length \<le> tp * size\<close>; the slice of every page \<open>p \<ge> 1\<close> is the part of
  the list from index \<open>(p - 1) * size\<close>, of at most \<open>size\<close> elements; the slices of the
  pages 1 to \<open>tp\<close>, concatenated, are the filtered list; and 25 records with page size 9
  give 3 pages of 9, 9 and 7 records.
\<close>

theorem pagination_reconstructs:
  assumes "0 < ipp"
  shows "\<exists>tp. totalPages fl ipp = Some tp
           \<and> tp = \<lceil>real (length fl) / real_of_int ipp\<rceil>
           \<and> (tp - 1) * ipp < int (length fl) \<and> int (length fl) \<le> tp * ipp
           \<and> (\<forall>p\<ge>1. paginatedList fl p ipp
                        = take (nat ipp) (drop (nat ((p - 1) * ipp)) fl))
           \<and> concat (map (\<lambda>p. paginatedList fl p ipp) [1..tp]) = fl
           \<and> (length fl = 25 \<and> ipp = 9 \<longrightarrow>
                tp = 3 \<and> map (\<lambda>p. length (paginatedList fl p ipp)) [1..tp] = [9, 9, 7])"
proof -
  define tp where "tp = \<lceil>real (length fl) / real_of_int ipp\<rceil>"
  have tot: "totalPages fl ipp = Some tp"
    using assms by (simp add: totalPages_def tp_def)
  have lo: "(tp - 1) * ipp < int (length fl)" and hi: "int (length fl) \<le> tp * ipp"
    and tp0: "0 \<le> tp"
    unfolding tp_def using ceiling_bounds [OF assms] by blast+
  have page: "paginatedList fl p ipp = take (nat ipp) (drop (nat ((p - 1) * ipp)) fl)"
    if "1 \<le> p" for p
    using assms that by (rule slice_page)
  have eq1: "map (\<lambda>p. paginatedList fl p ipp) [1..tp]
          = map (\<lambda>p. take (nat ipp) (drop (nat ((p - 1) * ipp)) fl)) [1..tp]"
    by (rule map_cong [OF refl]) (simp add: page)
  have ni: "int (nat ipp) = ipp" "int (nat tp) = tp"
    using assms tp0 by simp_all
  have "concat (map (\<lambda>p. paginatedList fl p ipp) [1..tp])
          = concat (map (\<lambda>p. take (nat ipp) (drop (nat ((p - 1) * int (nat ipp))) fl))
                      [1..int (nat tp)])"
    unfolding eq1 ni by (rule refl)
  also have "\<dots> = take (nat tp * nat ipp) fl" by (rule concat_pages_take)
  also have "\<dots> = fl"
  proof -
    have "int (length fl) \<le> int (nat tp * nat ipp)"
      using hi tp0 assms by (simp add: nat_mult_distrib)
    then have "length fl \<le> nat tp * nat ipp" by linarith
    then show ?thesis by simp
  qed
  finally have cat: "concat (map (\<lambda>p. paginatedList fl p ipp) [1..tp]) = fl" .
  have scen: "tp = 3 \<and> map (\<lambda>p. length (paginatedList fl p ipp)) [1..tp] = [9, 9, 7]"
    if "length fl = 25" and "ipp = 9"
  proof -
    have t3: "tp = 3" using that by (simp add: tp_def)
    have u: "[1..3::int] = [1, 2, 3]" by (simp add: upto_rec1)
    show ?thesis using that page by (simp add: t3 u)
  qed
  show ?thesis
  proof (intro exI [of _ tp] conjI allI impI)
    show "totalPages fl ipp = Some tp" by (rule tot)
    show "tp = \<lceil>real (length fl) / real_of_int ipp\<rceil>" by (rule tp_def)
    show "(tp - 1) * ipp < int (length fl)" by (rule lo)
    show "int (length fl) \<le> tp * ipp" by (rule hi)
    show "paginatedList fl p ipp = take (nat ipp) (drop (nat ((p - 1) * ipp)) fl)"
      if "1 \<le> p" for p using that by (rule page)
    show "concat (map (\<lambda>p. paginatedList fl p ipp) [1..tp]) = fl" by (rule cat)
    show "tp = 3" if "length fl = 25 \<and> ipp = 9"
      using scen [OF conjunct1 [OF that] conjunct2 [OF that]] by (rule conjunct1)
    show "map (\<lambda>p. length (paginatedList fl p ipp)) [1..tp] = [9, 9, 7]"
      if "length fl = 25 \<and> ipp = 9"
      using scen [OF conjunct1 [OF that] conjunct2 [OF that]] by (rule conjunct2)
  qed
qed

theorem pagination_reconstructs_witness:
  "totalPages [0..<25] 9 = Some 3
   \<and> concat (map (\<lambda>p. paginatedList [0..<25] p 9) [1..3]) = [0..<25]
   \<and> map (\<lambda>p. length (paginatedList [0..<25] p 9)) [1..3] = [9, 9, 7]"
proof -
  have h: "(0::int) < 9" by simp
  have l: "length [0..<25] = 25 \<and> (9::int) = 9" by simp
  from pagination_reconstructs [OF h, of "[0..<25]"]
  obtain tp where tot: "totalPages [0..<25] 9 = Some tp"
    and cat: "concat (map (\<lambda>p. paginatedList [0..<25] p 9) [1..tp]) = [0..<25]"
    and sc: "length [0..<25] = 25 \<and> (9::int) = 9 \<longrightarrow>
               tp = 3 \<and> map (\<lambda>p. length (paginatedList [0..<25] p 9)) [1..tp] = [9, 9, 7]"
    by (elim exE conjE) (rule that, assumption+)
  from sc l have t3: "tp = 3"
    and sz: "map (\<lambda>p. length (paginatedList [0..<25] p 9)) [1..tp] = [9, 9, 7]"
    by (rule mp [THEN conjunct1], rule mp [THEN conjunct2])
  show ?thesis using tot cat sz unfolding t3 by (intro conjI)
qed

section \<open>Page numbers shown\<close>

lemma range_loop_upto: "range_loop i hi acc = acc @ [i..hi]"
proof (induction i hi acc rule: range_loop.induct)
  case (1 i hi rng)
  show ?case
  proof (cases "i \<le> hi")
    case True
    then have "range_loop i hi rng = range_loop (i + 1) hi (rng @ [i])"
      by (subst range_loop.simps) simp
    also have "\<dots> = (rng @ [i]) @ [i + 1..hi]" using 1 True by simp
    also have "\<dots> = rng @ [i..hi]" using True by (simp add: upto_rec1)
    finally show ?thesis .
  next
    case False
    then show ?thesis by (subst range_loop.simps) simp
  qed
qed

text \<open>
  Claim C7.  With \<open>delta\<close> 1 on a narrow viewport and 2 otherwise: for at least 2 pages
  and a current page between 1 and the last, the sequence shown is page 1, an ellipsis
  if \<open>cp - delta > 2\<close>, the pages from \<open>max 2 (cp - delta)\<close> to
  \<open>min (tp - 1) (cp + delta)\<close> in ascending order, an ellipsis if \<open>cp + delta < tp - 1\<close>,
  and the last page; for at most 1 page nothing is shown.
\<close>

theorem visible_pages:
  "(tp \<le> 1 \<longrightarrow> Pagination mobile cp tp = None)
   \<and> (2 \<le> tp \<and> 1 \<le> cp \<and> cp \<le> tp \<longrightarrow>
        (let delta = (if mobile then 1 else 2) in
           Pagination mobile cp tp =
             Some ([PageNum 1]
                   @ (if cp - delta > 2 then [Dots] else [])
                   @ map PageNum [max 2 (cp - delta)..min (tp - 1) (cp + delta)]
                   @ (if cp + delta < tp - 1 then [Dots] else [])
                   @ [PageNum tp])))"
  by (simp add: Pagination_def getVisiblePages_def range_loop_upto Let_def)

theorem visible_pages_witness:
  "Pagination False 5 10
     = Some [PageNum 1, Dots, PageNum 3, PageNum 4, PageNum 5, PageNum 6, PageNum 7, Dots,
             PageNum 10]
   \<and> Pagination True 1 2 = Some [PageNum 1, PageNum 2]
   \<and> Pagination True 1 1 = None"
proof -
  have u: "[3..7::int] = [3, 4, 5, 6, 7]" "[2..1::int] = []" by (simp_all add: upto_rec1)
  show ?thesis
    using visible_pages [of 10 False 5] visible_pages [of 2 True 1] visible_pages [of 1 True 1]
    by (simp add: u)
qed

section \<open>Category options\<close>

lemma new_Set_snoc: "new_Set (xs @ [x]) = set_add (new_Set xs) x"
  by (simp add: new_Set_def)

lemma set_new_Set: "set (new_Set xs) = set xs"
  by (induction xs rule: rev_induct) (auto simp add: new_Set_snoc set_add_def new_Set_def)

lemma distinct_new_Set: "distinct (new_Set xs)"
proof (induction xs rule: rev_induct)
  case Nil
  then show ?case by (simp add: new_Set_def)
next
  case (snoc x xs)
  then show ?case by (simp add: new_Set_snoc set_add_def set_new_Set)
qed

lemma first_index_append_mem: "a \<in> set xs \<Longrightarrow> first_index (xs @ ys) a = first_index xs a"
  unfolding first_index_def by (induction xs) auto

lemma first_index_less: "a \<in> set xs \<Longrightarrow> first_index xs a < length xs"
  unfolding first_index_def by (induction xs) auto

lemma first_index_snoc_new: "x \<notin> set xs \<Longrightarrow> first_index (xs @ [x]) x = length xs"
  unfolding first_index_def by (induction xs) auto

lemma sorted_new_Set:
  "sorted_wrt (\<lambda>a b. first_index xs a < first_index xs b) (new_Set xs)"
proof (induction xs rule: rev_induct)
  case Nil
  then show ?case by (simp add: new_Set_def)
next
  case (snoc x xs)
  have keep: "sorted_wrt (\<lambda>a b. first_index (xs @ [x]) a < first_index (xs @ [x]) b) (new_Set xs)"
    using snoc
    by (rule sorted_wrt_mono_rel [rotated]) (simp add: set_new_Set first_index_append_mem)
  show ?case
  proof (cases "x \<in> set xs")
    case True
    then show ?thesis using keep by (simp add: new_Set_snoc set_add_def set_new_Set)
  next
    case False
    have "first_index (xs @ [x]) a < first_index (xs @ [x]) x" if "a \<in> set xs" for a
      using that False by (simp add: first_index_append_mem first_index_snoc_new first_index_less)
    then show ?thesis
      using keep False
      by (simp add: new_Set_snoc set_add_def set_new_Set sorted_wrt_append)
  qed
qed

text \<open>
  Claim C10.  The category options are the categories of the events of the whole working
  list, each once, in the order of their first occurrence in the list; so every option
  is the category of some event of the working list, and selecting it alone leaves the
  filtered list non-empty.
\<close>

theorem categories_distinct_first_occurrence:
  "distinct (categories l)
   \<and> set (categories l) = TourList.category ` set l
   \<and> sorted_wrt (\<lambda>a b. first_index (map TourList.category l) a
                          < first_index (map TourList.category l) b) (categories l)
   \<and> (\<forall>c \<in> set (categories l).
         (\<exists>e \<in> set l. TourList.category e = c) \<and> filteredList lc l c [] [] \<noteq> [])"
proof (intro conjI)
  show "distinct (categories l)" by (simp add: categories_def distinct_new_Set)
  show s: "set (categories l) = TourList.category ` set l"
    by (simp add: categories_def set_new_Set)
  show "sorted_wrt (\<lambda>a b. first_index (map TourList.category l) a
                          < first_index (map TourList.category l) b) (categories l)"
    unfolding categories_def by (rule sorted_new_Set)
  show "\<forall>c \<in> set (categories l).
          (\<exists>e \<in> set l. TourList.category e = c) \<and> filteredList lc l c [] [] \<noteq> []"
    unfolding s by (auto simp add: filteredList_def matches_def filter_empty_conv)
qed

theorem categories_distinct_first_occurrence_witness:
  "categories sample_list = [[0xC804, 0xC2DC], [0xC74C, 0xC545]]
   \<and> distinct (categories sample_list)
   \<and> (\<exists>e \<in> set sample_list. TourList.category e = [0xC74C, 0xC545])
   \<and> filteredList ascii_lower sample_list [0xC74C, 0xC545] [] [] \<noteq> []"
proof -
  have c: "categories sample_list = [[0xC804, 0xC2DC], [0xC74C, 0xC545]]"
    by (simp add: categories_def new_Set_def set_add_def sample_list_def sample_event_def)
  then have m: "[0xC74C, 0xC545] \<in> set (categories sample_list)" by simp
  show ?thesis
    using c m categories_distinct_first_occurrence [of sample_list ascii_lower] by blast
qed

end
